theory Spec2Isabelle
  imports Main "HOL-Library.Word"
begin

section \<open>Request-scoped key/value storage (package context)\<close>

text \<open>
  A shallow embedding of \<^verbatim>\<open>context.go\<close>. The package keeps a fixed array of
  \<^verbatim>\<open>numberOfBags\<close> databags; every databag owns two Go maps keyed by the request
  pointer: \<^verbatim>\<open>data\<close> (request to attribute table) and \<^verbatim>\<open>datat\<close> (request to creation
  time). Every exported function takes the lock of the request's bag for its whole body,
  so each call is one atomic step and a run of the program is a sequence of calls; the
  mutex itself is not part of the model.
\<close>

subsection \<open>Data model\<close>

text \<open>
  A \<^verbatim>\<open>*http.Request\<close> is modelled by its address, a \<^verbatim>\<open>uintptr\<close> (64 bits on the
  usual platforms). An \<^verbatim>\<open>interface{}\<close> is either nil or a dynamic value; the dynamic
  values are a type parameter, compared with HOL equality (the comparable keys the
  package expects).
\<close>

type_synonym request = "64 word"

datatype 'a iface = INil | IVal 'a

text \<open>
  A Go map value is a reference: nil, or the address of a map object. The attribute
  tables and the maps handed to callers live in an explicit store, so that aliasing
  between them can be stated. The two maps of a databag are private to the package and
  never nil after \<^verbatim>\<open>init\<close>; they are modelled as values.
\<close>

type_synonym addr = nat

datatype mapref = NilMap | MapRef addr

type_synonym 'a gomap = "'a iface \<rightharpoonup> 'a iface"

definition numberOfBags :: nat where
  "numberOfBags = 128"

record databag =
  data :: "request \<rightharpoonup> mapref"
  datat :: "request \<rightharpoonup> 64 word"

text \<open>
  The state of the program: the array \<^verbatim>\<open>bags\<close> (read at indices below
  \<^verbatim>\<open>numberOfBags\<close> only), the store of map objects, and the next free address of the
  allocator.
\<close>

record 'a world =
  bags :: "nat \<Rightarrow> databag"
  heap :: "addr \<Rightarrow> 'a gomap"
  nxt :: addr

subsection \<open>Go map primitives\<close>

text \<open>\<^verbatim>\<open>make(map[interface{}]interface{}, n)\<close>: a fresh empty map; the size hint has no meaning.\<close>

definition make :: "'a world \<Rightarrow> mapref \<times> 'a world" where
  "make s = (MapRef (nxt s), s\<lparr>heap := (heap s)(nxt s := Map.empty), nxt := Suc (nxt s)\<rparr>)"

text \<open>\<^verbatim>\<open>b.data[r]\<close> read as a single value: the zero value (a nil map) when \<^verbatim>\<open>r\<close> is absent.\<close>

definition index_data :: "databag \<Rightarrow> request \<Rightarrow> mapref" where
  "index_data b r = (case data b r of None \<Rightarrow> NilMap | Some m \<Rightarrow> m)"

text \<open>\<^verbatim>\<open>v, ok := m[k]\<close> and \<^verbatim>\<open>v := m[k]\<close>; reading a nil map finds nothing.\<close>

definition mapaccess2 :: "mapref \<Rightarrow> 'a iface \<Rightarrow> 'a world \<Rightarrow> 'a iface \<times> bool" where
  "mapaccess2 m k s =
     (case m of
        NilMap \<Rightarrow> (INil, False)
      | MapRef a \<Rightarrow> (case heap s a k of None \<Rightarrow> (INil, False) | Some v \<Rightarrow> (v, True)))"

definition mapaccess1 :: "mapref \<Rightarrow> 'a iface \<Rightarrow> 'a world \<Rightarrow> 'a iface" where
  "mapaccess1 m k s = fst (mapaccess2 m k s)"

text \<open>\<^verbatim>\<open>m[k] = v\<close>: panics on a nil map (the result \<open>None\<close>).\<close>

definition mapassign :: "mapref \<Rightarrow> 'a iface \<Rightarrow> 'a iface \<Rightarrow> 'a world \<Rightarrow> 'a world option" where
  "mapassign m k v s =
     (case m of
        NilMap \<Rightarrow> None
      | MapRef a \<Rightarrow> Some (s\<lparr>heap := (heap s)(a := (heap s a)(k \<mapsto> v))\<rparr>))"

text \<open>\<^verbatim>\<open>delete(m, k)\<close>: a no-op on a nil map and on an absent key.\<close>

definition mapdelete :: "mapref \<Rightarrow> 'a iface \<Rightarrow> 'a world \<Rightarrow> 'a world" where
  "mapdelete m k s =
     (case m of
        NilMap \<Rightarrow> s
      | MapRef a \<Rightarrow> s\<lparr>heap := (heap s)(a := (heap s a)(k := None))\<rparr>)"

text \<open>
  \<^verbatim>\<open>for k, v := range context { result[k] = v }\<close>: every binding of \<^verbatim>\<open>context\<close>, read
  when the loop runs, is assigned into \<^verbatim>\<open>result\<close>; ranging over a nil map does nothing.
\<close>

definition copy_into :: "mapref \<Rightarrow> mapref \<Rightarrow> 'a world \<Rightarrow> 'a world" where
  "copy_into result context s =
     (case (result, context) of
        (MapRef a, MapRef c) \<Rightarrow> s\<lparr>heap := (heap s)(a := heap s a ++ heap s c)\<rparr>
      | _ \<Rightarrow> s)"

text \<open>
  The same loop, run over the keys in the order \<open>ks\<close> in which \<^verbatim>\<open>range\<close> happens to
  yield them. Go leaves that order open; \<open>range_assign_copy_into\<close> below shows that
  every order over the keys of \<^verbatim>\<open>context\<close> gives \<open>copy_into\<close>.
\<close>

fun range_assign :: "'a iface list \<Rightarrow> addr \<Rightarrow> addr \<Rightarrow> 'a world \<Rightarrow> 'a world" where
  "range_assign [] a c s = s"
| "range_assign (k # ks) a c s =
     range_assign ks a c
       (case heap s c k of
          None \<Rightarrow> s
        | Some v \<Rightarrow> s\<lparr>heap := (heap s)(a := (heap s a)(k \<mapsto> v))\<rparr>)"

subsection \<open>The package\<close>

text \<open>\<^verbatim>\<open>init\<close>: both maps of every bag are made empty; nothing is allocated for tables yet.\<close>

definition init :: "'a world" where
  "init = \<lparr>bags = (\<lambda>i. \<lparr>data = Map.empty, datat = Map.empty\<rparr>),
           heap = (\<lambda>a. Map.empty), nxt = 0\<rparr>"

text \<open>
  \<^verbatim>\<open>requestBag\<close> returns \<^verbatim>\<open>&bags[offset]\<close>; the pointer is modelled by the index
  \<^verbatim>\<open>offset = uintptr(unsafe.Pointer(r)) % numberOfBags\<close>.
\<close>

definition requestBag :: "request \<Rightarrow> nat" where
  "requestBag r = unat (r mod word_of_nat numberOfBags)"

text \<open>Writing through the pointer \<^verbatim>\<open>b\<close> returned by \<^verbatim>\<open>requestBag\<close>.\<close>

definition put_bag :: "request \<Rightarrow> databag \<Rightarrow> 'a world \<Rightarrow> 'a world" where
  "put_bag r b s = s\<lparr>bags := (bags s)(requestBag r := b)\<rparr>"

text \<open>
  \<^verbatim>\<open>Set\<close>. The argument \<open>now\<close> is what \<^verbatim>\<open>time.Now().Unix()\<close> returns when it is
  called. The table is non-nil when the assignment runs, so the assignment cannot panic
  (\<open>None\<close> would leave the state as it is).
\<close>

definition Set :: "64 word \<Rightarrow> request \<Rightarrow> 'a iface \<Rightarrow> 'a iface \<Rightarrow> 'a world \<Rightarrow> 'a world" where
  "Set now r key val s =
     (let b = bags s (requestBag r);
          s1 = (if index_data b r = NilMap
                then (case make s of (m, s') \<Rightarrow>
                        put_bag r (b\<lparr>data := (data b)(r \<mapsto> m), datat := (datat b)(r \<mapsto> now)\<rparr>) s')
                else s)
      in case mapassign (index_data (bags s1 (requestBag r)) r) key val s1 of
           Some s2 \<Rightarrow> s2
         | None \<Rightarrow> s1)"

definition Get :: "request \<Rightarrow> 'a iface \<Rightarrow> 'a world \<Rightarrow> 'a iface" where
  "Get r key s =
     (let b = bags s (requestBag r); ctx = index_data b r
      in if ctx \<noteq> NilMap then mapaccess1 ctx key s else INil)"

definition GetOk :: "request \<Rightarrow> 'a iface \<Rightarrow> 'a world \<Rightarrow> 'a iface \<times> bool" where
  "GetOk r key s =
     (let b = bags s (requestBag r)
      in if data b r \<noteq> None then mapaccess2 (index_data b r) key s else (INil, False))"

definition GetAll :: "request \<Rightarrow> 'a world \<Rightarrow> mapref \<times> 'a world" where
  "GetAll r s =
     (let b = bags s (requestBag r)
      in case data b r of
           Some context \<Rightarrow>
             (case make s of (result, s1) \<Rightarrow> (result, copy_into result context s1))
         | None \<Rightarrow> (NilMap, s))"

definition GetAllOk :: "request \<Rightarrow> 'a world \<Rightarrow> (mapref \<times> bool) \<times> 'a world" where
  "GetAllOk r s =
     (let b = bags s (requestBag r);
          context = index_data b r;
          ok = (data b r \<noteq> None)
      in case make s of (result, s1) \<Rightarrow> ((result, ok), copy_into result context s1))"

definition Delete :: "request \<Rightarrow> 'a iface \<Rightarrow> 'a world \<Rightarrow> 'a world" where
  "Delete r key s =
     (let b = bags s (requestBag r)
      in if index_data b r \<noteq> NilMap then mapdelete (index_data b r) key s else s)"

text \<open>\<^verbatim>\<open>clear\<close> is \<^verbatim>\<open>Clear\<close> without the lock.\<close>

definition clear :: "request \<Rightarrow> 'a world \<Rightarrow> 'a world" where
  "clear r s =
     (let b = bags s (requestBag r)
      in put_bag r (b\<lparr>data := (data b)(r := None), datat := (datat b)(r := None)\<rparr>) s)"

definition Clear :: "request \<Rightarrow> 'a world \<Rightarrow> 'a world" where
  "Clear r s = clear r s"

subsection \<open>The handler wrapper\<close>




subsection \<open>Runs of a program that uses the package\<close>

text \<open>
  What code outside the package can do to the state: call the seven exported functions,
  and assign into or delete from a map that \<^verbatim>\<open>GetAll\<close> or \<^verbatim>\<open>GetAllOk\<close> handed to it.
  The attribute tables themselves are never handed out. The second component of a
  client state lists the map references the callers hold. An assignment into a nil map
  panics and changes nothing.
\<close>

datatype 'a action =
    ASet "64 word" request "'a iface" "'a iface"
  | AGet request "'a iface"
  | AGetOk request "'a iface"
  | AGetAll request
  | AGetAllOk request
  | ADelete request "'a iface"
  | AClear request
  | AAssign mapref "'a iface" "'a iface"
  | AMapDelete mapref "'a iface"

type_synonym 'a client = "'a world \<times> mapref list"

fun step :: "'a action \<Rightarrow> 'a client \<Rightarrow> 'a client" where
  "step (ASet now r k v) (s, held) = (Set now r k v s, held)"
| "step (AGet r k) (s, held) = (s, held)"
| "step (AGetOk r k) (s, held) = (s, held)"
| "step (AGetAll r) (s, held) = (case GetAll r s of (m, s') \<Rightarrow> (s', m # held))"
| "step (AGetAllOk r) (s, held) = (case GetAllOk r s of ((m, ok), s') \<Rightarrow> (s', m # held))"
| "step (ADelete r k) (s, held) = (Delete r k s, held)"
| "step (AClear r) (s, held) = (Clear r s, held)"
| "step (AAssign m k v) (s, held) =
     (if m \<in> set held
      then (case mapassign m k v s of Some s' \<Rightarrow> (s', held) | None \<Rightarrow> (s, held))
      else (s, held))"
| "step (AMapDelete m k) (s, held) =
     (if m \<in> set held then (mapdelete m k s, held) else (s, held))"

fun run :: "'a action list \<Rightarrow> 'a client \<Rightarrow> 'a client" where
  "run [] c = c"
| "run (a # as) c = run as (step a c)"

definition reachable :: "'a world \<Rightarrow> bool" where
  "reachable s \<longleftrightarrow> (\<exists>as. fst (run as (init, [])) = s)"

text \<open>A request is registered when \<^verbatim>\<open>_, ok := b.data[r]\<close> gives \<^verbatim>\<open>ok\<close>.\<close>

definition registered :: "'a world \<Rightarrow> request \<Rightarrow> bool" where
  "registered s r \<longleftrightarrow> data (bags s (requestBag r)) r \<noteq> None"

text \<open>
  Whether a run leaves \<open>r\<close> with a table, read off the calls alone: the last \<^verbatim>\<open>Set\<close> or
  \<^verbatim>\<open>Clear\<close> for \<open>r\<close> decides; \<open>b\<close> is the answer before the run.
\<close>

fun live :: "request \<Rightarrow> 'a action list \<Rightarrow> bool \<Rightarrow> bool" where
  "live r [] b = b"
| "live r (ASet now r' k v # as) b = live r as (r' = r \<or> b)"
| "live r (AClear r' # as) b = live r as (r' \<noteq> r \<and> b)"
| "live r (a # as) b = live r as b"

subsection \<open>Invariants of the reachable states\<close>

text \<open>
  In every bag no request is bound to a nil table, every table has been allocated, and
  the two maps have the same requests.
\<close>

definition tables_ok :: "'a world \<Rightarrow> bool" where
  "tables_ok s \<longleftrightarrow>
     (\<forall>i r. data (bags s i) r \<noteq> Some NilMap
          \<and> (\<forall>a. data (bags s i) r = Some (MapRef a) \<longrightarrow> a < nxt s)
          \<and> ((data (bags s i) r = None) = (datat (bags s i) r = None)))"

text \<open>A map held by a caller has been allocated and is no request's table.\<close>

definition held_ok :: "'a world \<Rightarrow> mapref list \<Rightarrow> bool" where
  "held_ok s held \<longleftrightarrow>
     (\<forall>a. MapRef a \<in> set held \<longrightarrow> a < nxt s \<and> (\<forall>i r. data (bags s i) r \<noteq> Some (MapRef a)))"

definition client_ok :: "'a client \<Rightarrow> bool" where
  "client_ok c \<longleftrightarrow> tables_ok (fst c) \<and> held_ok (fst c) (snd c)"

subsection \<open>The invariants hold in every reachable state\<close>

lemmas prim_defs = make_def put_bag_def index_data_def mapassign_def mapaccess2_def
  mapaccess1_def mapdelete_def copy_into_def

lemmas api_defs = Set_def Get_def GetOk_def GetAll_def GetAllOk_def Delete_def clear_def Clear_def

lemma tables_ok_init: "tables_ok init"
  by (simp add: tables_ok_def init_def)

lemma held_ok_init: "held_ok init []"
  by (simp add: held_ok_def)

lemma tables_ok_Set: "tables_ok s \<Longrightarrow> tables_ok (Set now r k v s)"
  unfolding tables_ok_def Set_def prim_defs Let_def
  by (auto split: option.splits mapref.splits if_splits simp: less_Suc_eq)

lemma held_ok_Set: "tables_ok s \<Longrightarrow> held_ok s held \<Longrightarrow> held_ok (Set now r k v s) held"
  unfolding tables_ok_def held_ok_def Set_def prim_defs Let_def
  by (auto split: option.splits mapref.splits if_splits simp: less_Suc_eq)

lemma tables_ok_Delete: "tables_ok s \<Longrightarrow> tables_ok (Delete r k s)"
  unfolding tables_ok_def Delete_def prim_defs Let_def
  by (auto split: option.splits mapref.splits if_splits)

lemma held_ok_Delete: "held_ok s held \<Longrightarrow> held_ok (Delete r k s) held"
  unfolding held_ok_def Delete_def prim_defs Let_def
  by (auto split: option.splits mapref.splits if_splits)

lemma tables_ok_Clear: "tables_ok s \<Longrightarrow> tables_ok (Clear r s)"
  unfolding tables_ok_def Clear_def clear_def prim_defs Let_def
  by (auto split: option.splits mapref.splits if_splits)

lemma held_ok_Clear: "held_ok s held \<Longrightarrow> held_ok (Clear r s) held"
  unfolding held_ok_def Clear_def clear_def prim_defs Let_def
  by (auto split: option.splits mapref.splits if_splits)

lemma tables_ok_GetAll: "tables_ok s \<Longrightarrow> tables_ok (snd (GetAll r s))"
  unfolding tables_ok_def GetAll_def prim_defs Let_def
  by (auto split: option.splits mapref.splits if_splits simp: less_Suc_eq)

lemma held_ok_GetAll:
  "tables_ok s \<Longrightarrow> held_ok s held \<Longrightarrow> held_ok (snd (GetAll r s)) (fst (GetAll r s) # held)"
  unfolding tables_ok_def held_ok_def GetAll_def prim_defs Let_def
  by (auto split: option.splits mapref.splits if_splits simp: less_Suc_eq)

lemma tables_ok_GetAllOk: "tables_ok s \<Longrightarrow> tables_ok (snd (GetAllOk r s))"
  unfolding tables_ok_def GetAllOk_def prim_defs Let_def
  by (auto split: option.splits mapref.splits if_splits simp: less_Suc_eq)

lemma held_ok_GetAllOk:
  "tables_ok s \<Longrightarrow> held_ok s held \<Longrightarrow>
   held_ok (snd (GetAllOk r s)) (fst (fst (GetAllOk r s)) # held)"
  unfolding tables_ok_def held_ok_def GetAllOk_def prim_defs Let_def
  by (auto split: option.splits mapref.splits if_splits simp: less_Suc_eq)

lemma tables_ok_mapassign: "tables_ok s \<Longrightarrow> mapassign m k v s = Some s' \<Longrightarrow> tables_ok s'"
  unfolding tables_ok_def prim_defs
  by (auto split: mapref.splits)

lemma held_ok_mapassign: "held_ok s held \<Longrightarrow> mapassign m k v s = Some s' \<Longrightarrow> held_ok s' held"
  unfolding held_ok_def prim_defs
  by (auto split: mapref.splits)

lemma tables_ok_mapdelete: "tables_ok s \<Longrightarrow> tables_ok (mapdelete m k s)"
  unfolding tables_ok_def prim_defs
  by (auto split: mapref.splits)

lemma held_ok_mapdelete: "held_ok s held \<Longrightarrow> held_ok (mapdelete m k s) held"
  unfolding held_ok_def prim_defs
  by (auto split: mapref.splits)

lemma client_ok_step: "client_ok c \<Longrightarrow> client_ok (step a c)"
proof (cases c)
  case (Pair s held)
  assume "client_ok c"
  with Pair have ok: "tables_ok s" "held_ok s held"
    by (simp_all add: client_ok_def)
  show ?thesis
  proof (cases a)
    case (ASet now r k v)
    with Pair ok show ?thesis
      by (simp add: client_ok_def tables_ok_Set held_ok_Set)
  next
    case (AGetAll r)
    with Pair ok tables_ok_GetAll [of s r] held_ok_GetAll [of s held r] show ?thesis
      by (auto simp: client_ok_def split: prod.splits)
  next
    case (AGetAllOk r)
    with Pair ok tables_ok_GetAllOk [of s r] held_ok_GetAllOk [of s held r] show ?thesis
      by (auto simp: client_ok_def split: prod.splits)
  next
    case (ADelete r k)
    with Pair ok show ?thesis
      by (simp add: client_ok_def tables_ok_Delete held_ok_Delete)
  next
    case (AClear r)
    with Pair ok show ?thesis
      by (simp add: client_ok_def tables_ok_Clear held_ok_Clear)
  next
    case (AAssign m k v)
    with Pair ok show ?thesis
      by (auto simp: client_ok_def split: option.splits
               intro: tables_ok_mapassign held_ok_mapassign)
  next
    case (AMapDelete m k)
    with Pair ok show ?thesis
      by (simp add: client_ok_def tables_ok_mapdelete held_ok_mapdelete)
  qed (use Pair ok in \<open>simp_all add: client_ok_def\<close>)
qed

lemma client_ok_run: "client_ok c \<Longrightarrow> client_ok (run as c)"
  by (induction as arbitrary: c) (simp_all add: client_ok_step)

lemma reachable_tables_ok: "reachable s \<Longrightarrow> tables_ok s"
proof -
  assume "reachable s"
  then obtain as where s: "fst (run as (init, [])) = s"
    by (auto simp: reachable_def)
  have "client_ok (init, [])"
    by (simp add: client_ok_def tables_ok_init held_ok_init)
  then have "client_ok (run as (init, []))"
    by (rule client_ok_run)
  with s show ?thesis
    by (auto simp: client_ok_def)
qed

lemma reachable_init: "reachable init"
  unfolding reachable_def by (rule exI [of _ "[]"]) simp

lemma tables_ok_table:
  "tables_ok s \<Longrightarrow> data (bags s i) r = Some m \<Longrightarrow> \<exists>t. m = MapRef t \<and> t < nxt s"
  unfolding tables_ok_def by (cases m) auto

lemma run_append: "run (as @ bs) c = run bs (run as c)"
  by (induction as arbitrary: c) simp_all

lemma reachable_after:
  assumes "reachable s" and "\<And>held. fst (step a (s, held)) = s'"
  shows "reachable s'"
proof -
  from assms(1) obtain as where s: "fst (run as (init, [])) = s"
    by (auto simp: reachable_def)
  obtain held where c: "run as (init, []) = (s, held)"
    using s by (cases "run as (init, [])") auto
  have "fst (run (as @ [a]) (init, [])) = s'"
    by (simp add: run_append c assms(2))
  then show ?thesis
    unfolding reachable_def by blast
qed

lemma reachable_Set: "reachable s \<Longrightarrow> reachable (Set now r k v s)"
  by (rule reachable_after [where a = "ASet now r k v"]) simp_all

lemma reachable_Delete: "reachable s \<Longrightarrow> reachable (Delete r k s)"
  by (rule reachable_after [where a = "ADelete r k"]) simp_all

lemma reachable_Clear: "reachable s \<Longrightarrow> reachable (Clear r s)"
  by (rule reachable_after [where a = "AClear r"]) simp_all

lemma reachable_GetAll: "reachable s \<Longrightarrow> reachable (snd (GetAll r s))"
  by (rule reachable_after [where a = "AGetAll r"]) (auto split: prod.splits)

lemma reachable_GetAllOk: "reachable s \<Longrightarrow> reachable (snd (GetAllOk r s))"
  by (rule reachable_after [where a = "AGetAllOk r"]) (auto split: prod.splits)

subsection \<open>The primitives as the source uses them\<close>

lemma range_assign_restrict:
  "a \<noteq> c \<Longrightarrow>
   range_assign ks a c s = s\<lparr>heap := (heap s)(a := heap s a ++ (heap s c |` set ks))\<rparr>"
proof (induction ks arbitrary: s)
  case Nil
  show ?case by simp
next
  case (Cons k ks)
  show ?case
  proof (cases "heap s c k")
    case None
    then have "heap s c |` set (k # ks) = heap s c |` set ks"
      by (auto simp: restrict_map_def)
    with None Cons show ?thesis
      by simp
  next
    case (Some v)
    let ?s1 = "s\<lparr>heap := (heap s)(a := (heap s a)(k \<mapsto> v))\<rparr>"
    have eq: "(heap s a)(k \<mapsto> v) ++ (heap s c |` set ks) = heap s a ++ (heap s c |` set (k # ks))"
      using Some by (auto simp: map_add_def restrict_map_def split: option.splits)
    have "range_assign (k # ks) a c s = range_assign ks a c ?s1"
      by (simp add: Some)
    also have "\<dots> = ?s1\<lparr>heap := (heap ?s1)(a := heap ?s1 a ++ (heap ?s1 c |` set ks))\<rparr>"
      by (rule Cons.IH [OF Cons.prems])
    also have "\<dots> = s\<lparr>heap := (heap s)(a := heap s a ++ (heap s c |` set (k # ks)))\<rparr>"
      using Cons.prems by (simp add: eq del: set_simps)
    finally show ?thesis .
  qed
qed

lemma range_assign_copy_into:
  assumes "a \<noteq> c" and "set ks = dom (heap s c)"
  shows "range_assign ks a c s = copy_into (MapRef a) (MapRef c) s"
proof -
  have "heap s c |` dom (heap s c) = heap s c"
    by (rule ext) (auto simp: restrict_map_def dom_def)
  with assms show ?thesis
    by (simp add: range_assign_restrict copy_into_def)
qed

text \<open>The assignment in \<^verbatim>\<open>Set\<close> never meets a nil table.\<close>

lemma Set_assign_defined:
  assumes "s1 = (if index_data (bags s (requestBag r)) r = NilMap
                 then (case make s of (m, s') \<Rightarrow>
                         put_bag r ((bags s (requestBag r))
                           \<lparr>data := (data (bags s (requestBag r)))(r \<mapsto> m),
                            datat := (datat (bags s (requestBag r)))(r \<mapsto> now)\<rparr>) s')
                 else s)"
  shows "mapassign (index_data (bags s1 (requestBag r)) r) key val s1 \<noteq> None"
  using assms by (auto simp: prim_defs split: mapref.splits option.splits)

subsection \<open>Frame lemmas\<close>

lemma held_map_frame:
  assumes "client_ok (s, held)" and "MapRef a \<in> set held"
  shows "(\<exists>s2. mapassign (MapRef a) k' v' s = Some s2 \<and> Get r k s2 = Get r k s \<and>
                GetOk r k s2 = GetOk r k s) \<and>
         Get r k (mapdelete (MapRef a) k' s) = Get r k s \<and>
         GetOk r k (mapdelete (MapRef a) k' s) = GetOk r k s \<and>
         heap (Set now r k v s) a = heap s a \<and>
         heap (Delete r k s) a = heap s a \<and>
         heap (Clear r s) a = heap s a"
proof -
  from assms have a: "a < nxt s" "data (bags s (requestBag r)) r \<noteq> Some (MapRef a)"
    by (auto simp: client_ok_def held_ok_def)
  show ?thesis
  proof (cases "data (bags s (requestBag r)) r")
    case None
    with a show ?thesis
      by (simp add: api_defs prim_defs Let_def)
  next
    case (Some c)
    with assms(1) obtain t where "c = MapRef t" "t < nxt s"
      by (auto simp: client_ok_def dest: tables_ok_table)
    with Some a show ?thesis
      by (simp add: api_defs prim_defs Let_def)
  qed
qed

lemma registered_Set: "registered (Set now r' k v s) r = (r' = r \<or> registered s r)"
  by (auto simp: registered_def Set_def prim_defs Let_def split: option.splits mapref.splits)

lemma registered_Clear: "registered (Clear r' s) r = (r' \<noteq> r \<and> registered s r)"
  by (auto simp: registered_def Clear_def clear_def prim_defs Let_def)

lemma bags_Delete: "bags (Delete r k s) = bags s"
  by (simp add: Delete_def prim_defs Let_def split: mapref.splits)

lemma bags_GetAll: "bags (snd (GetAll r s)) = bags s"
  by (simp add: GetAll_def prim_defs Let_def split: option.splits mapref.splits)

lemma bags_GetAllOk: "bags (snd (GetAllOk r s)) = bags s"
  by (simp add: GetAllOk_def prim_defs Let_def split: option.splits mapref.splits)

lemma bags_mapassign: "mapassign m k v s = Some s' \<Longrightarrow> bags s' = bags s"
  by (auto simp: prim_defs split: mapref.splits)

lemma bags_mapdelete: "bags (mapdelete m k s) = bags s"
  by (simp add: prim_defs split: mapref.splits)

lemma registered_run: "registered (fst (run as c)) r = live r as (registered (fst c) r)"
proof (induction as arbitrary: c)
  case Nil
  show ?case by simp
next
  case (Cons a as)
  obtain s held where c: "c = (s, held)"
    by (cases c)
  show ?case
  proof (cases a)
    case (ASet now r' k v)
    with c Cons show ?thesis
      by (simp add: registered_Set)
  next
    case (AClear r')
    with c Cons show ?thesis
      by (simp add: registered_Clear)
  next
    case (AGetAll r')
    with c Cons bags_GetAll [of r' s] show ?thesis
      by (auto simp: registered_def split: prod.splits)
  next
    case (AGetAllOk r')
    with c Cons bags_GetAllOk [of r' s] show ?thesis
      by (auto simp: registered_def split: prod.splits)
  next
    case (ADelete r' k)
    with c Cons show ?thesis
      by (simp add: registered_def bags_Delete)
  next
    case (AAssign m k v)
    with c Cons show ?thesis
      by (auto simp: registered_def split: option.splits dest: bags_mapassign)
  next
    case (AMapDelete m k)
    with c Cons show ?thesis
      by (simp add: registered_def bags_mapdelete)
  qed (use c Cons in simp_all)
qed

section \<open>The claims\<close>

subsection \<open>C1: a stored value is read back\<close>



subsection \<open>C2: queries on an unregistered request\<close>

text \<open>
  C2. For a request \<open>r\<close> that has no table (nothing is stored for it), \<^verbatim>\<open>GetAllOk(r)\<close>
  returns a new empty map and \<open>false\<close>, and for every key \<^verbatim>\<open>GetOk(r, k)\<close> returns
  \<open>(nil, false)\<close> and \<^verbatim>\<open>Get(r, k)\<close> returns nil.
\<close>

theorem unregistered_queries:
  assumes "\<not> registered s r"
  shows "GetAllOk r s =
           ((MapRef (nxt s), False), s\<lparr>heap := (heap s)(nxt s := Map.empty), nxt := Suc (nxt s)\<rparr>) \<and>
         heap (snd (GetAllOk r s)) (nxt s) = Map.empty \<and>
         GetOk r k s = (INil, False) \<and>
         Get r k s = INil"
  using assms by (simp add: registered_def api_defs prim_defs Let_def)

theorem unregistered_queries_witness:
  "\<not> registered (Set 7 5 (IVal 1) (IVal 2) (init :: nat world)) 6 \<and>
   fst (GetAllOk 6 (Set 7 5 (IVal 1) (IVal 2) (init :: nat world))) = (MapRef 1, False) \<and>
   heap (snd (GetAllOk 6 (Set 7 5 (IVal 1) (IVal 2) (init :: nat world)))) 1 = Map.empty \<and>
   GetOk 6 (IVal 1) (Set 7 5 (IVal 1) (IVal 2) (init :: nat world)) = (INil, False) \<and>
   Get 6 (IVal 1) (Set 7 5 (IVal 1) (IVal 2) (init :: nat world)) = INil"
proof -
  have u: "\<not> registered (Set 7 5 (IVal 1) (IVal 2) (init :: nat world)) 6"
    by (simp add: registered_def api_defs prim_defs Let_def init_def requestBag_def numberOfBags_def)
  have n: "nxt (Set 7 5 (IVal 1) (IVal 2) (init :: nat world)) = 1"
    by (simp add: api_defs prim_defs Let_def init_def)
  from u n unregistered_queries [OF u, of "IVal 1"] show ?thesis
    by simp
qed

subsection \<open>C3: Clear\<close>

text \<open>
  C3. After \<^verbatim>\<open>Clear(r)\<close>, in whatever state it is called, \<^verbatim>\<open>GetAllOk(r)\<close> returns an
  empty map and \<open>false\<close>, and \<open>r\<close> has neither a table nor a timestamp. A second
  \<^verbatim>\<open>Clear(r)\<close> changes nothing, and in a reachable state \<^verbatim>\<open>Clear\<close> of an unregistered
  request leaves the whole state as it is.
\<close>

theorem Clear_removes_table:
  "fst (GetAllOk r (Clear r s)) = (MapRef (nxt s), False) \<and>
   heap (snd (GetAllOk r (Clear r s))) (nxt s) = Map.empty \<and>
   data (bags (Clear r s) (requestBag r)) r = None \<and>
   datat (bags (Clear r s) (requestBag r)) r = None \<and>
   Clear r (Clear r s) = Clear r s \<and>
   (reachable s \<and> \<not> registered s r \<longrightarrow> Clear r s = s)"
proof -
  have "Clear r s = s" if "reachable s" and "\<not> registered s r"
  proof -
    from that have d: "data (bags s (requestBag r)) r = None"
      by (simp add: registered_def)
    from that(1) have "tables_ok s"
      by (rule reachable_tables_ok)
    with d have t: "datat (bags s (requestBag r)) r = None"
      unfolding tables_ok_def by blast
    have "(data (bags s (requestBag r)))(r := None) = data (bags s (requestBag r))"
      using d by (simp add: fun_upd_idem)
    moreover have "(datat (bags s (requestBag r)))(r := None) = datat (bags s (requestBag r))"
      using t by (simp add: fun_upd_idem)
    ultimately show ?thesis
      by (simp add: Clear_def clear_def put_bag_def Let_def)
  qed
  then show ?thesis
    by (simp add: api_defs prim_defs Let_def)
qed

text \<open>Two calls of \<^verbatim>\<open>Set\<close>, then \<^verbatim>\<open>Clear\<close>; and \<^verbatim>\<open>Clear\<close> before anything is stored.\<close>

theorem Clear_removes_table_witness:
  "reachable (init :: nat world) \<and> \<not> registered (init :: nat world) 5 \<and>
   Clear 5 (init :: nat world) = init \<and>
   fst (GetAllOk 5 (Clear 5 (Set 8 5 (IVal 4) (IVal 3) (Set 7 5 (IVal 1) (IVal 2) (init :: nat world)))))
     = (MapRef 1, False) \<and>
   heap (snd (GetAllOk 5 (Clear 5 (Set 8 5 (IVal 4) (IVal 3) (Set 7 5 (IVal 1) (IVal 2) (init :: nat world)))))) 1
     = Map.empty"
proof -
  let ?s = "Set 8 5 (IVal 4) (IVal 3) (Set 7 5 (IVal 1) (IVal 2) (init :: nat world))"
  have u: "\<not> registered (init :: nat world) 5"
    by (simp add: registered_def init_def)
  have n: "nxt ?s = 1"
    by (simp add: api_defs prim_defs Let_def init_def)
  have "Clear 5 (init :: nat world) = init"
    using Clear_removes_table [of 5 "init :: nat world"] u reachable_init by blast
  moreover have "fst (GetAllOk 5 (Clear 5 ?s)) = (MapRef 1, False) \<and>
      heap (snd (GetAllOk 5 (Clear 5 ?s))) 1 = Map.empty"
    using Clear_removes_table [of 5 ?s] unfolding n by blast
  ultimately show ?thesis
    using u reachable_init by blast
qed

subsection \<open>C4: how long a table exists\<close>

text \<open>
  C4 as stated fails: \<^verbatim>\<open>Delete\<close> removes the key and keeps the table, so after
  \<^verbatim>\<open>Set(r, k, v)\<close> and \<^verbatim>\<open>Delete(r, k)\<close> the request is registered with an empty table.
\<close>

theorem empty_table_registered:
  "reachable (Delete 5 (IVal 1) (Set 7 5 (IVal 1) (IVal 2) (init :: nat world))) \<and>
   data (bags (Delete 5 (IVal 1) (Set 7 5 (IVal 1) (IVal 2) (init :: nat world))) (requestBag 5)) 5
     = Some (MapRef 0) \<and>
   heap (Delete 5 (IVal 1) (Set 7 5 (IVal 1) (IVal 2) (init :: nat world))) 0 = Map.empty \<and>
   fst (GetAllOk 5 (Delete 5 (IVal 1) (Set 7 5 (IVal 1) (IVal 2) (init :: nat world))))
     = (MapRef 1, True) \<and>
   heap (snd (GetAllOk 5 (Delete 5 (IVal 1) (Set 7 5 (IVal 1) (IVal 2) (init :: nat world))))) 1
     = Map.empty"
proof -
  have "reachable (Delete 5 (IVal 1) (Set 7 5 (IVal 1) (IVal 2) (init :: nat world)))"
    by (intro reachable_Delete reachable_Set reachable_init)
  then show ?thesis
    by (simp add: api_defs prim_defs Let_def init_def)
qed

text \<open>
  C4, amended. After any run of calls of \<^verbatim>\<open>Set\<close>, \<^verbatim>\<open>Get\<close>, \<^verbatim>\<open>GetOk\<close>, \<^verbatim>\<open>GetAll\<close>,
  \<^verbatim>\<open>GetAllOk\<close>, \<^verbatim>\<open>Delete\<close> and \<^verbatim>\<open>Clear\<close> (and of changes callers make to the maps they
  were handed), a request is registered exactly when the run has a \<^verbatim>\<open>Set\<close> for it with
  no later \<^verbatim>\<open>Clear\<close> for it: the table exists from that \<^verbatim>\<open>Set\<close> until \<^verbatim>\<open>Clear\<close>, whether
  or not \<^verbatim>\<open>Delete\<close> has emptied it.
\<close>

theorem registered_iff_Set_since_Clear:
  fixes as :: "'a action list"
  shows "registered (fst (run as (init, []))) r = live r as False"
proof -
  have "registered (fst ((init, []) :: 'a client)) r = False"
    by (simp add: registered_def init_def)
  then show ?thesis
    by (simp only: registered_run)
qed

theorem registered_iff_Set_since_Clear_witness:
  "registered (fst (run [ASet 7 5 (IVal 1) (IVal 2), ADelete 5 (IVal 1), AGetAllOk 5]
                    ((init :: nat world), []))) 5 \<and>
   \<not> registered (fst (run [ASet 7 5 (IVal 1) (IVal 2), AClear 5, AGet 5 (IVal 1)]
                    ((init :: nat world), []))) 5"
  using registered_iff_Set_since_Clear
          [of "[ASet 7 5 (IVal 1) (IVal 2), ADelete 5 (IVal (1 :: nat)), AGetAllOk 5]" 5]
        registered_iff_Set_since_Clear
          [of "[ASet 7 5 (IVal 1) (IVal 2), AClear 5, AGet 5 (IVal (1 :: nat))]" 5]
  by simp

subsection \<open>C5: Delete\<close>



subsection \<open>C6: the two maps of a bag agree\<close>

text \<open>
  C6. In every reachable state, and in every bag, the requests that have a creation
  time are the requests that have a table.
\<close>

theorem bag_tables_consistent:
  assumes "reachable s"
  shows "dom (data (bags s i)) = dom (datat (bags s i))"
proof -
  from assms have "tables_ok s"
    by (rule reachable_tables_ok)
  then have "(data (bags s i) r = None) = (datat (bags s i) r = None)" for r
    unfolding tables_ok_def by blast
  then show ?thesis
    by (auto simp: dom_def)
qed

theorem bag_tables_consistent_witness:
  "reachable (Clear 6 (Set 8 6 (IVal 1) (IVal 2) (Set 7 5 (IVal 1) (IVal 2) (init :: nat world)))) \<and>
   dom (data (bags (Clear 6 (Set 8 6 (IVal 1) (IVal 2) (Set 7 5 (IVal 1) (IVal 2) (init :: nat world)))) 5))
     = dom (datat (bags (Clear 6 (Set 8 6 (IVal 1) (IVal 2) (Set 7 5 (IVal 1) (IVal 2) (init :: nat world)))) 5)) \<and>
   datat (bags (Clear 6 (Set 8 6 (IVal 1) (IVal 2) (Set 7 5 (IVal 1) (IVal 2) (init :: nat world)))) 5) 5
     = Some 7"
proof -
  let ?s = "Clear 6 (Set 8 6 (IVal 1) (IVal 2) (Set 7 5 (IVal 1) (IVal 2) (init :: nat world)))"
  have r: "reachable ?s"
    by (intro reachable_Clear reachable_Set reachable_init)
  have t: "datat (bags ?s 5) 5 = Some 7"
    by (simp add: api_defs prim_defs Let_def init_def requestBag_def numberOfBags_def)
  from r t bag_tables_consistent [OF r, of 5] show ?thesis
    by blast
qed

subsection \<open>C7: GetAll returns a copy\<close>

text \<open>
  C7. For a registered request in a reachable state, \<^verbatim>\<open>GetAll(r)\<close> returns a new map
  object, different from the table of \<open>r\<close> and with the table's bindings. Assigning into
  the returned map or deleting from it changes no \<^verbatim>\<open>Get(r, k)\<close> or \<^verbatim>\<open>GetOk(r, k)\<close>, and
  a later \<^verbatim>\<open>Set(r, k3, v3)\<close> does not change the returned map.
\<close>

theorem GetAll_snapshot:
  assumes "reachable s" and "registered s r" and "GetAll r s = (m, s1)"
  shows "\<exists>a t. m = MapRef a \<and> data (bags s (requestBag r)) r = Some (MapRef t) \<and> a \<noteq> t \<and>
           heap s1 a = heap s t \<and>
           (\<exists>s2. mapassign m k' v' s1 = Some s2 \<and>
                 Get r k s2 = Get r k s1 \<and> GetOk r k s2 = GetOk r k s1) \<and>
           Get r k (mapdelete m k' s1) = Get r k s1 \<and>
           GetOk r k (mapdelete m k' s1) = GetOk r k s1 \<and>
           heap (Set now r k3 v3 s1) a = heap s1 a"
proof -
  from assms(2) obtain c where c: "data (bags s (requestBag r)) r = Some c"
    by (auto simp: registered_def)
  with assms(1) obtain t where t: "c = MapRef t" "t < nxt s"
    by (blast dest: reachable_tables_ok tables_ok_table)
  from c t assms(3) have m: "m = MapRef (nxt s)"
    and s1: "s1 = s\<lparr>heap := (heap s)(nxt s := heap s t), nxt := Suc (nxt s)\<rparr>"
    by (auto simp: GetAll_def prim_defs Let_def)
  from t have ne: "nxt s \<noteq> t"
    by simp
  show ?thesis
    using c t ne unfolding m s1
    by (simp add: api_defs prim_defs Let_def)
qed

theorem GetAll_snapshot_witness:
  "reachable (Set 7 5 (IVal 1) (IVal 2) (init :: nat world)) \<and>
   registered (Set 7 5 (IVal 1) (IVal 2) (init :: nat world)) 5 \<and>
   (\<exists>s1 a s2. GetAll 5 (Set 7 5 (IVal 1) (IVal 2) (init :: nat world)) = (MapRef a, s1) \<and>
      heap s1 a (IVal 1) = Some (IVal 2) \<and>
      mapassign (MapRef a) (IVal 1) (IVal 9) s1 = Some s2 \<and>
      Get 5 (IVal 1) s2 = IVal 2 \<and>
      heap (Set 8 5 (IVal 1) (IVal 3) s1) a (IVal 1) = Some (IVal 2) \<and>
      Get 5 (IVal 1) (Set 8 5 (IVal 1) (IVal 3) s1) = IVal 3)"
proof -
  let ?s = "Set 7 5 (IVal 1) (IVal 2) (init :: nat world)"
  obtain m s1 where g: "GetAll 5 ?s = (m, s1)"
    by (cases "GetAll 5 ?s")
  have r: "reachable ?s"
    by (rule reachable_Set [OF reachable_init])
  have u: "registered ?s 5"
    by (simp add: registered_def api_defs prim_defs Let_def init_def)
  have d: "data (bags ?s (requestBag 5)) 5 = Some (MapRef 0)"
    by (simp add: api_defs prim_defs Let_def init_def)
  have h: "heap ?s 0 (IVal 1) = Some (IVal 2)"
    by (simp add: api_defs prim_defs Let_def init_def)
  have g1: "Get 5 (IVal 1) s1 = IVal 2"
    using g by (auto simp: api_defs prim_defs Let_def init_def)
  have g3: "Get 5 (IVal 1) (Set 8 5 (IVal 1) (IVal 3) s1) = IVal 3"
    using g by (auto simp: api_defs prim_defs Let_def init_def)
  from GetAll_snapshot [OF r u g, of "IVal 1" "IVal 9" "IVal 1" 8 "IVal 1" "IVal 3"] d h g g1 g3 r u
  show ?thesis
    by auto
qed

subsection \<open>C8: ClearHandler\<close>



subsection \<open>C9: the shard selector\<close>

text \<open>
  C9. \<^verbatim>\<open>requestBag\<close> depends on the request's address alone: it selects the bag at
  index address modulo 128, an index of the array, and \<^verbatim>\<open>numberOfBags\<close> is 128.
\<close>

theorem requestBag_index:
  "requestBag r = unat r mod 128 \<and> requestBag r < numberOfBags \<and> numberOfBags = 128"
  by (simp add: requestBag_def numberOfBags_def unat_mod)

theorem requestBag_index_witness:
  "requestBag 300 = 44 \<and> requestBag 300 < numberOfBags"
proof -
  have e: "unat (300 :: 64 word) mod 128 = 44"
    by simp
  from requestBag_index [of 300]
  have "requestBag 300 = unat (300 :: 64 word) mod 128" and b: "requestBag 300 < numberOfBags"
    by blast+
  with e have "requestBag 300 = 44"
    by (simp only:)
  with b show ?thesis
    by blast
qed

subsection \<open>C10: the two answers for an unregistered request\<close>

text \<open>
  C10. For an unregistered request \<^verbatim>\<open>GetAll(r)\<close> returns the nil map and allocates
  nothing, while \<^verbatim>\<open>GetAllOk(r)\<close> returns \<open>false\<close> with a non-nil empty map at a new
  address, which in a reachable state is no request's table.
\<close>

theorem GetAll_nil_GetAllOk_empty:
  assumes "\<not> registered s r"
  shows "GetAll r s = (NilMap, s) \<and>
         fst (GetAllOk r s) = (MapRef (nxt s), False) \<and>
         heap (snd (GetAllOk r s)) (nxt s) = Map.empty \<and>
         (reachable s \<longrightarrow> (\<forall>i r'. data (bags s i) r' \<noteq> Some (MapRef (nxt s))))"
proof -
  have "data (bags s i) r' \<noteq> Some (MapRef (nxt s))" if "reachable s" for i r'
    using that by (auto dest!: reachable_tables_ok tables_ok_table)
  with assms show ?thesis
    by (simp add: registered_def api_defs prim_defs Let_def)
qed

theorem GetAll_nil_GetAllOk_empty_witness:
  "\<not> registered (Set 7 5 (IVal 1) (IVal 2) (init :: nat world)) 6 \<and>
   reachable (Set 7 5 (IVal 1) (IVal 2) (init :: nat world)) \<and>
   GetAll 6 (Set 7 5 (IVal 1) (IVal 2) (init :: nat world))
     = (NilMap, Set 7 5 (IVal 1) (IVal 2) init) \<and>
   fst (GetAllOk 6 (Set 7 5 (IVal 1) (IVal 2) (init :: nat world))) = (MapRef 1, False) \<and>
   heap (snd (GetAllOk 6 (Set 7 5 (IVal 1) (IVal 2) (init :: nat world)))) 1 = Map.empty \<and>
   data (bags (Set 7 5 (IVal 1) (IVal 2) (init :: nat world)) (requestBag 5)) 5 \<noteq> Some (MapRef 1)"
proof -
  let ?s = "Set 7 5 (IVal 1) (IVal 2) (init :: nat world)"
  have "\<not> registered (init :: nat world) 6"
    by (simp add: registered_def init_def)
  then have u: "\<not> registered ?s 6"
    by (simp add: registered_Set)
  have r: "reachable ?s"
    by (rule reachable_Set [OF reachable_init])
  have n: "nxt ?s = 1"
    by (simp add: api_defs prim_defs Let_def init_def)
  from u r GetAll_nil_GetAllOk_empty [OF u] show ?thesis
    unfolding n by blast
qed

end
